theory Spec2Isabelle
  imports Complex_Main "HOL-Library.Sublist" "HOL-Library.Multiset"
begin

section \<open>Text\<close>

text \<open>
  A Python \<open>str\<close> is a sequence of code points. The model covers the code points below
  256: a \<^typ>\<open>char\<close> stands for the code point \<^term>\<open>of_char c :: nat\<close>, and a
  \<^typ>\<open>string\<close> for a \<open>str\<close> all of whose code points lie in that range.

  \<open>str.strip()\<close> without argument removes leading and trailing characters \<open>c\<close> with
  \<open>c.isspace()\<close>; below 256 these are the twelve code points listed here.
\<close>

definition isspace :: "char \<Rightarrow> bool" where
  "isspace c = (of_char c \<in> {9, 10, 11, 12, 13, 28, 29, 30, 31, 32, 133, 160 :: nat})"

definition strip :: "string \<Rightarrow> string" where
  "strip s = rev (dropWhile isspace (rev (dropWhile isspace s)))"

text \<open>
  \<open>str.lower()\<close> below 256: the letters \<open>A\<close>..\<open>Z\<close> and the Latin-1 capitals 192..222
  (without the multiplication sign 215) move up by 32; everything else stays.
\<close>

definition lower_char :: "char \<Rightarrow> char" where
  "lower_char c =
     (let n = of_char c :: nat
      in if (65 \<le> n \<and> n \<le> 90) \<or> (192 \<le> n \<and> n \<le> 222 \<and> n \<noteq> 215)
         then char_of (n + 32) else c)"

definition lower :: "string \<Rightarrow> string" where
  "lower s = map lower_char s"

text \<open>
  SQLite's built-in \<open>LOWER()\<close> and the case folding of its \<open>LIKE\<close> operator act on the
  ASCII letters only.
\<close>

definition sql_lower_char :: "char \<Rightarrow> char" where
  "sql_lower_char c =
     (let n = of_char c :: nat
      in if 65 \<le> n \<and> n \<le> 90 then char_of (n + 32) else c)"

definition LOWER :: "string \<Rightarrow> string" where
  "LOWER s = map sql_lower_char s"

text \<open>
  \<open>text LIKE pattern\<close> of SQLite, without an \<open>ESCAPE\<close> clause. SQLite's
  \<open>patternCompare\<close> walks pattern and text: a percent sign in the pattern matches any
  run of characters (also the empty one), an underscore matches exactly one character,
  and any other pattern character matches the same character up to ASCII case. The
  first argument is the pattern.
\<close>

fun patternCompare :: "string \<Rightarrow> string \<Rightarrow> bool" where
  "patternCompare [] [] = True"
| "patternCompare [] (c # cs) = False"
| "patternCompare (p # ps) [] = (p = CHR ''%'' \<and> patternCompare ps [])"
| "patternCompare (p # ps) (c # cs) =
     (if p = CHR ''%'' then patternCompare ps (c # cs) \<or> patternCompare (p # ps) cs
      else (p = CHR ''_'' \<or> sql_lower_char p = sql_lower_char c) \<and> patternCompare ps cs)"

text \<open>
  The operator hands both operands to \<open>patternCompare\<close> as C strings, which end before
  their first U+0000: what follows a NUL in the pattern or in the text is never read.
  Python binds a \<open>str\<close> with its full length, and \<open>LOWER()\<close> keeps that length, so a NUL
  in the query or in a stored text does reach the operator.
\<close>

definition c_string :: "string \<Rightarrow> string" where
  "c_string s = takeWhile (\<lambda>c. c \<noteq> CHR 0x00) s"

definition like :: "string \<Rightarrow> string \<Rightarrow> bool" where
  "like pattern t = patternCompare (c_string pattern) (c_string t)"

text \<open>
  Before it compares, the operator checks the length of the pattern in bytes of its
  UTF-8 encoding (one byte for a code point below 128, two for the others below 256)
  against \<open>SQLITE_MAX_LIKE_PATTERN_LENGTH\<close>, 50000 by default; a longer pattern makes
  the statement fail with "LIKE or GLOB pattern too complex".
\<close>

definition utf8_length :: "string \<Rightarrow> nat" where
  "utf8_length s = sum_list (map (\<lambda>c. if (of_char c :: nat) < 128 then 1 else 2) s)"

definition like_pattern_limit :: nat where
  "like_pattern_limit = 50000"

text \<open>\<open>sep.join(xs)\<close> on a sequence of strings.\<close>

fun join :: "string \<Rightarrow> string list \<Rightarrow> string" where
  "join sep [] = []"
| "join sep [x] = x"
| "join sep (x # y # ys) = x @ sep @ join sep (y # ys)"

text \<open>
  Python's \<open>q in s\<close> on strings holds when \<open>q\<close> occurs in \<open>s\<close> as a contiguous run:
  this is \<^const>\<open>sublist\<close>.
\<close>

section \<open>The books table\<close>

record book =
  book_id :: int
  name :: string
  subject :: string
  price :: real
  edition :: int

text \<open>
  The database file holds the rows of \<open>books\<close> and, as the key is declared
  \<open>AUTOINCREMENT\<close>, the largest key ever handed out (\<open>sqlite_sequence\<close>).
\<close>

record database =
  books :: "book list"
  sqlite_sequence :: int

definition empty_db :: database where
  "empty_db = \<lparr>books = [], sqlite_sequence = 0\<rparr>"

text \<open>
  Every method opens its own connection, runs one statement and, when it writes,
  commits. Each of the three steps can fail in SQLite; an environment says which of them
  does during one call. \<open>_get_connection()\<close> is called before the \<open>try\<close>, so a failure
  to connect leaves the method as an exception; a failure of the statement or of the
  commit is caught by \<open>except sqlite3.Error\<close>.
\<close>

datatype step = Connect | Execute | Commit

type_synonym env = "step \<Rightarrow> bool"

definition no_fault :: env where
  "no_fault s = False"

datatype exn = Sqlite_Error | Overflow_Error

text \<open>
  An \<open>int\<close> bound to a statement parameter must fit SQLite's 64-bit integer, or the
  binding raises \<open>OverflowError\<close>, which is not an \<open>sqlite3.Error\<close>.
\<close>

definition int64 :: "int \<Rightarrow> bool" where
  "int64 i = (- (2 ^ 63) \<le> i \<and> i < 2 ^ 63)"

text \<open>The key of the next row: one more than the largest key ever present.\<close>

definition next_rowid :: "database \<Rightarrow> int" where
  "next_rowid db = max (sqlite_sequence db) (fold max (map book_id (books db)) 0) + 1"

definition insert_row :: "database \<Rightarrow> string \<Rightarrow> string \<Rightarrow> real \<Rightarrow> int \<Rightarrow> database" where
  "insert_row db nm subj pr ed =
     \<lparr>books = books db @
        [\<lparr>book_id = next_rowid db, name = nm, subject = subj, price = pr, edition = ed\<rparr>],
      sqlite_sequence = next_rowid db\<rparr>"

definition initial_books :: "(string \<times> string \<times> real \<times> int) list" where
  "initial_books =
     [(''The C++ Programming Language'', ''Computer Science'', 750, 4),
      (''Calculus: Early Transcendentals'', ''Mathematics'', 980.5, 8),
      (''Introduction to Data Science'', ''Computer Science'', 620, 2),
      (''Linear Algebra and Its Applications'', ''Mathematics'', 850, 5),
      (''Organic Chemistry'', ''Science'', 1100, 10)]"

definition insert_initial_data :: "database \<Rightarrow> database" where
  "insert_initial_data db =
     fold (\<lambda>(nm, subj, pr, ed) d. insert_row d nm subj pr ed) initial_books db"

definition seed_db :: database where
  "seed_db = insert_initial_data empty_db"

text \<open>A table with one book, whose lower-cased name occurs in its subject.\<close>

definition one_book_db :: database where
  "one_book_db = insert_row empty_db ''Math'' ''Mathematics'' 10 1"

text \<open>
  A table with one book, whose name is the single letter U+00C9, the capital E with
  acute accent; \<open>str.lower()\<close> turns it into U+00E9, \<open>LOWER()\<close> leaves it.
\<close>

definition accent_db :: database where
  "accent_db = insert_row empty_db [CHR 0xC9] ''Science'' 10 1"

subsection \<open>DatabaseManager\<close>

definition add_book ::
  "env \<Rightarrow> database \<Rightarrow> string \<Rightarrow> string \<Rightarrow> real \<Rightarrow> int \<Rightarrow> (exn + int option) \<times> database" where
  "add_book env db nm subj pr ed =
     (if env Connect then (Inl Sqlite_Error, db)
      else if \<not> int64 ed then (Inl Overflow_Error, db)
      else if env Execute \<or> \<not> int64 (next_rowid db) then (Inr None, db)
      else if env Commit then (Inr None, db)
      else (Inr (Some (next_rowid db)), insert_row db nm subj pr ed))"

definition remove_book :: "env \<Rightarrow> database \<Rightarrow> int \<Rightarrow> (exn + bool) \<times> database" where
  "remove_book env db i =
     (if env Connect then (Inl Sqlite_Error, db)
      else if \<not> int64 i then (Inl Overflow_Error, db)
      else if env Execute then (Inr False, db)
      else if env Commit then (Inr False, db)
      else
        (let kept = filter (\<lambda>b. book_id b \<noteq> i) (books db);
             rowcount = length (books db) - length kept
         in (Inr (rowcount > 0), db\<lparr>books := kept\<rparr>)))"

definition get_all_books :: "env \<Rightarrow> database \<Rightarrow> (exn + book list) \<times> database" where
  "get_all_books env db =
     (if env Connect then (Inl Sqlite_Error, db)
      else if env Execute then (Inr [], db)
      else (Inr (rev (sort_key book_id (books db))), db))"

subsection \<open>Search\<close>

text \<open>
  \<open>find_books\<close> wraps the trimmed, lower-cased query in percent signs and lets SQLite
  test each row with \<open>LOWER(name) LIKE ? OR LOWER(subject) LIKE ?\<close>. The statement has
  no \<open>ORDER BY\<close>; rows come in table order. On a pattern beyond the length limit the
  test of the first row fails the statement, and \<open>except sqlite3.Error\<close> turns that into
  the empty list.
\<close>

definition find_books :: "env \<Rightarrow> database \<Rightarrow> string \<Rightarrow> (exn + book list) \<times> database" where
  "find_books env db query =
     (if env Connect then (Inl Sqlite_Error, db)
      else
        (let query_param = ''%'' @ lower (strip query) @ ''%''
         in if env Execute then (Inr [], db)
            else if books db \<noteq> [] \<and> like_pattern_limit < utf8_length query_param
            then (Inr [], db)
            else (Inr (filter (\<lambda>b. like query_param (LOWER (name b))
                                   \<or> like query_param (LOWER (subject b))) (books db)),
                  db)))"

subsection \<open>Recommendation\<close>

text \<open>
  The two messages of \<open>get_recommendations\<close>. An apostrophe cannot stand inside a
  string literal and is written \<open>CHR 0x27\<close>. The light-bulb sign U+1F4A1 that opens the
  second message lies outside the modelled range of code points; its four UTF-8 bytes
  stand for it.
\<close>

definition no_match_message :: "string \<Rightarrow> string list \<Rightarrow> string" where
  "no_match_message query all_subjects =
     ''I couldn'' @ [CHR 0x27] @ ''t find a direct match for '' @ [CHR 0x27] @ query
       @ [CHR 0x27] @ ''. Try searching one of these subjects: ''
       @ (if all_subjects \<noteq> [] then join '', '' all_subjects
          else ''No subjects available.'')"

definition related_message :: "string \<Rightarrow> string" where
  "related_message target_subject =
     [CHR 0xF0, CHR 0x9F, CHR 0x92, CHR 0xA1] @ '' I didn'' @ [CHR 0x27]
       @ ''t find that specific book, but since you are interested in **''
       @ target_subject @ ''**, check out these related titles:''"

definition error_message :: string where
  "error_message = ''Sorry, an error occurred while fetching recommendations.''"

text \<open>
  Step 1 of \<open>get_recommendations\<close>, on the already trimmed and lower-cased query: the
  target subject (\<open>Inr (Inr t)\<close>), or the message of the early return (\<open>Inr (Inl m)\<close>).
  The subjects are collected in a Python \<open>set\<close>, whose iteration order is not defined by
  the language: it depends on the hashes of the strings, which CPython salts anew for
  every process. The parameter \<open>iter\<close> stands for that order; it maps the subjects, in
  the order they were put into the set, to the order in which the set yields them.
  \<open>if not matched_subject\<close> is true for \<open>None\<close> and for the empty string.
\<close>

definition determine_target ::
  "(string list \<Rightarrow> string list) \<Rightarrow> env \<Rightarrow> database \<Rightarrow> string \<Rightarrow> book list
     \<Rightarrow> (exn + (string + string)) \<times> database" where
  "determine_target iter env db query found_books =
     (case found_books of
        b # _ \<Rightarrow> (Inr (Inr (subject b)), db)
      | [] \<Rightarrow>
         (case get_all_books env db of
            (Inl e, db') \<Rightarrow> (Inl e, db')
          | (Inr all_books, db') \<Rightarrow>
             (let all_subjects = iter (map subject all_books);
                  matched_subject = find (\<lambda>s. sublist query (lower s)) all_subjects
              in case matched_subject of
                   None \<Rightarrow> (Inr (Inl (no_match_message query all_subjects)), db')
                 | Some s \<Rightarrow>
                    if s = [] then (Inr (Inl (no_match_message query all_subjects)), db')
                    else (Inr (Inr s), db'))))"

text \<open>
  Step 2: the rows with exactly that subject (\<open>WHERE subject = ?\<close>), without those whose
  lower-cased name is the query.
\<close>

definition fetch_related ::
  "env \<Rightarrow> database \<Rightarrow> string \<Rightarrow> string \<Rightarrow> (exn + string \<times> book list) \<times> database" where
  "fetch_related env db query target_subject =
     (if env Connect then (Inl Sqlite_Error, db)
      else if env Execute then (Inr (error_message, []), db)
      else
        (let recommended_books =
               filter (\<lambda>b. lower (name b) \<noteq> query)
                 (filter (\<lambda>b. subject b = target_subject) (books db))
         in (Inr (related_message target_subject, recommended_books), db)))"

text \<open>
  \<open>get_recommendations\<close> makes up to two calls on the database, each on a connection of
  its own: \<open>env1\<close> is the environment of \<open>get_all_books\<close>, \<open>env2\<close> that of the subject
  query.
\<close>

definition get_recommendations ::
  "(string list \<Rightarrow> string list) \<Rightarrow> env \<Rightarrow> env \<Rightarrow> database \<Rightarrow> string \<Rightarrow> book list
     \<Rightarrow> (exn + string \<times> book list) \<times> database" where
  "get_recommendations iter env1 env2 db query0 found_books =
     (let query = lower (strip query0)
      in case determine_target iter env1 db query found_books of
           (Inl e, db') \<Rightarrow> (Inl e, db')
         | (Inr (Inl message), db') \<Rightarrow> (Inr (message, []), db')
         | (Inr (Inr target_subject), db') \<Rightarrow> fetch_related env2 db' query target_subject)"

text \<open>
  What any iteration order of a set guarantees: every element once, and no other.
\<close>

definition set_order :: "(string list \<Rightarrow> string list) \<Rightarrow> bool" where
  "set_order iter = (\<forall>xs. distinct (iter xs) \<and> set (iter xs) = set xs)"

text \<open>Two such orders: first insertion first, and the reverse of it.\<close>

definition insertion_order :: "string list \<Rightarrow> string list" where
  "insertion_order xs = rev (remdups (rev xs))"

definition reverse_order :: "string list \<Rightarrow> string list" where
  "reverse_order xs = remdups (rev xs)"

text \<open>An environment in which the statement fails, and nothing else.\<close>

definition statement_fails :: env where
  "statement_fails s = (s = Execute)"

subsection \<open>The search contract as the specification words it\<close>

text \<open>
  A book matches when the trimmed, lower-cased query occurs in its lower-cased name or
  in its lower-cased subject; the search returns the matching books.
\<close>

definition matches_spec :: "string \<Rightarrow> book \<Rightarrow> bool" where
  "matches_spec query b =
     (sublist (lower (strip query)) (lower (name b))
      \<or> sublist (lower (strip query)) (lower (subject b)))"

definition search_spec :: "database \<Rightarrow> string \<Rightarrow> book list" where
  "search_spec db query = filter (matches_spec query) (books db)"

text \<open>A pattern character that \<open>LIKE\<close> reads as a wildcard.\<close>

definition wildcard :: "char \<Rightarrow> bool" where
  "wildcard c = (c = CHR ''%'' \<or> c = CHR ''_'')"

section \<open>Listing\<close>

lemma sorted_desc_rev_sort_key:
  "sorted_wrt (\<lambda>a b. book_id a \<ge> book_id b) (rev (sort_key book_id xs))"
proof -
  have "sorted (map book_id (sort_key book_id xs))"
    by (rule sorted_sort_key)
  then have "sorted_wrt (\<lambda>a b. book_id a \<le> book_id b) (sort_key book_id xs)"
    by (simp add: sorted_wrt_map)
  then show ?thesis
    by (simp add: sorted_wrt_rev)
qed

text \<open>
  Claim C8. When the read succeeds, \<open>get_all_books\<close> returns every row of the table,
  each as often as the table holds it, ordered by \<open>book_id\<close> descending; on an empty
  table the result is the empty list, returned normally; the table is left as it was.
\<close>

theorem get_all_books_all_rows_desc:
  assumes "\<not> env Connect" and "\<not> env Execute"
  shows "\<exists>xs. get_all_books env db = (Inr xs, db)
           \<and> mset xs = mset (books db)
           \<and> sorted_wrt (\<lambda>a b. book_id a \<ge> book_id b) xs
           \<and> (books db = [] \<longrightarrow> xs = [])"
  using assms by (simp add: get_all_books_def sorted_desc_rev_sort_key)

theorem get_all_books_all_rows_desc_witness:
  "\<not> no_fault Connect \<and> \<not> no_fault Execute
   \<and> (\<exists>xs. get_all_books no_fault seed_db = (Inr xs, seed_db)
          \<and> mset xs = mset (books seed_db)
          \<and> sorted_wrt (\<lambda>a b. book_id a \<ge> book_id b) xs
          \<and> (books seed_db = [] \<longrightarrow> xs = []))
   \<and> map book_id (projr (fst (get_all_books no_fault seed_db))) = [5, 4, 3, 2, 1]"
proof -
  have h1: "\<not> no_fault Connect" and h2: "\<not> no_fault Execute"
    by (simp_all add: no_fault_def)
  have "map book_id (projr (fst (get_all_books no_fault seed_db))) = [5, 4, 3, 2, 1]"
    by code_simp
  with h1 h2 get_all_books_all_rows_desc [OF h1 h2, of seed_db] show ?thesis by blast
qed

section \<open>Search\<close>

subsection \<open>What a LIKE pattern matches\<close>

lemma patternCompare_percent_all: "patternCompare ''%'' t"
  by (induction t) auto

lemma patternCompare_percent_iff:
  "patternCompare (CHR ''%'' # ps) t \<longleftrightarrow> (\<exists>u v. t = u @ v \<and> patternCompare ps v)"
proof (induction t)
  case Nil
  then show ?case by simp
next
  case (Cons c cs)
  show ?case
  proof
    assume "patternCompare (CHR ''%'' # ps) (c # cs)"
    then consider "patternCompare ps (c # cs)" | "patternCompare (CHR ''%'' # ps) cs" by auto
    then show "\<exists>u v. c # cs = u @ v \<and> patternCompare ps v"
    proof cases
      case 1
      then have "c # cs = [] @ (c # cs) \<and> patternCompare ps (c # cs)" by simp
      then show ?thesis by blast
    next
      case 2
      with Cons.IH obtain u v where "cs = u @ v" "patternCompare ps v" by blast
      then have "c # cs = (c # u) @ v \<and> patternCompare ps v" by simp
      then show ?thesis by blast
    qed
  next
    assume "\<exists>u v. c # cs = u @ v \<and> patternCompare ps v"
    then obtain u v where uv: "c # cs = u @ v" "patternCompare ps v" by blast
    show "patternCompare (CHR ''%'' # ps) (c # cs)"
    proof (cases u)
      case Nil
      with uv have "patternCompare ps (c # cs)" by simp
      then show ?thesis by simp
    next
      case (Cons a u')
      with uv have "cs = u' @ v" by simp
      with uv Cons.IH have "patternCompare (CHR ''%'' # ps) cs" by blast
      then show ?thesis by simp
    qed
  qed
qed

lemma patternCompare_self:
  "patternCompare ps v \<Longrightarrow> patternCompare (q @ ps) (q @ v)"
proof (induction q)
  case Nil
  then show ?case by simp
next
  case (Cons a q)
  then have ih: "patternCompare (q @ ps) (q @ v)" by simp
  show ?case
  proof (cases "a = CHR ''%''")
    case True
    have "a # q @ v = [a] @ (q @ v) \<and> patternCompare (q @ ps) (q @ v)"
      using ih by simp
    then have "patternCompare (CHR ''%'' # (q @ ps)) (a # q @ v)"
      unfolding patternCompare_percent_iff by blast
    with True show ?thesis by simp
  next
    case False
    with ih show ?thesis by simp
  qed
qed

lemma patternCompare_occurrence:
  assumes "sublist q t"
  shows "patternCompare (''%'' @ q @ ''%'') t"
proof -
  from assms obtain w v where t: "t = w @ q @ v" unfolding sublist_def by blast
  have "patternCompare (q @ ''%'') (q @ v)"
    using patternCompare_percent_all by (rule patternCompare_self)
  with t have "\<exists>u v'. t = u @ v' \<and> patternCompare (q @ ''%'') v'" by blast
  then have "patternCompare (CHR ''%'' # (q @ ''%'')) t"
    unfolding patternCompare_percent_iff .
  then show ?thesis by simp
qed

lemma patternCompare_literal_iff:
  "\<forall>c \<in> set q. \<not> wildcard c \<Longrightarrow>
   patternCompare (q @ ps) t \<longleftrightarrow>
     (\<exists>u v. t = u @ v \<and> map sql_lower_char u = map sql_lower_char q \<and> patternCompare ps v)"
proof (induction q arbitrary: t)
  case Nil
  then show ?case by simp
next
  case (Cons a q)
  then have a: "a \<noteq> CHR ''%''" "a \<noteq> CHR ''_''" and q: "\<forall>c \<in> set q. \<not> wildcard c"
    by (auto simp: wildcard_def)
  show ?case
  proof (cases t)
    case Nil
    with a show ?thesis by simp
  next
    case (Cons c cs)
    have "patternCompare ((a # q) @ ps) (c # cs) \<longleftrightarrow>
            sql_lower_char a = sql_lower_char c \<and> patternCompare (q @ ps) cs"
      using a by simp
    also have "\<dots> \<longleftrightarrow> sql_lower_char a = sql_lower_char c \<and>
        (\<exists>u v. cs = u @ v \<and> map sql_lower_char u = map sql_lower_char q \<and> patternCompare ps v)"
      using Cons.IH [OF q] by simp
    also have "\<dots> \<longleftrightarrow> (\<exists>u v. c # cs = u @ v
                  \<and> map sql_lower_char u = map sql_lower_char (a # q) \<and> patternCompare ps v)"
    proof
      assume "sql_lower_char a = sql_lower_char c \<and>
        (\<exists>u v. cs = u @ v \<and> map sql_lower_char u = map sql_lower_char q \<and> patternCompare ps v)"
      then obtain u v where "sql_lower_char a = sql_lower_char c" "cs = u @ v"
        "map sql_lower_char u = map sql_lower_char q" "patternCompare ps v" by blast
      then have "c # cs = (c # u) @ v
                   \<and> map sql_lower_char (c # u) = map sql_lower_char (a # q)
                   \<and> patternCompare ps v"
        by simp
      then show "\<exists>u v. c # cs = u @ v
                   \<and> map sql_lower_char u = map sql_lower_char (a # q) \<and> patternCompare ps v"
        by blast
    next
      assume "\<exists>u v. c # cs = u @ v
                \<and> map sql_lower_char u = map sql_lower_char (a # q) \<and> patternCompare ps v"
      then obtain u v where uv: "c # cs = u @ v"
        "map sql_lower_char u = map sql_lower_char (a # q)" "patternCompare ps v"
        by blast
      then obtain u' where u: "u = c # u'" by (cases u) auto
      with uv show "sql_lower_char a = sql_lower_char c \<and>
        (\<exists>u v. cs = u @ v \<and> map sql_lower_char u = map sql_lower_char q \<and> patternCompare ps v)"
        by auto
    qed
    finally show ?thesis using Cons by simp
  qed
qed

lemma patternCompare_contains:
  assumes "\<forall>c \<in> set q. \<not> wildcard c"
  shows "patternCompare (''%'' @ q @ ''%'') t \<longleftrightarrow>
           sublist (map sql_lower_char q) (map sql_lower_char t)"
proof -
  have "patternCompare (''%'' @ q @ ''%'') t \<longleftrightarrow>
          (\<exists>w v. t = w @ v \<and> patternCompare (q @ ''%'') v)"
    using patternCompare_percent_iff [of "q @ ''%''" t] by simp
  also have "\<dots> \<longleftrightarrow> (\<exists>w u v. t = w @ u @ v \<and> map sql_lower_char u = map sql_lower_char q)"
    using patternCompare_literal_iff [OF assms, of "''%''"] patternCompare_percent_all by auto
  also have "\<dots> \<longleftrightarrow> sublist (map sql_lower_char q) (map sql_lower_char t)"
  proof
    assume "\<exists>w u v. t = w @ u @ v \<and> map sql_lower_char u = map sql_lower_char q"
    then obtain w u v where "t = w @ u @ v" "map sql_lower_char u = map sql_lower_char q" by blast
    then have "map sql_lower_char t = map sql_lower_char w @ map sql_lower_char q @ map sql_lower_char v"
      by simp
    then show "sublist (map sql_lower_char q) (map sql_lower_char t)"
      unfolding sublist_def by blast
  next
    assume "sublist (map sql_lower_char q) (map sql_lower_char t)"
    then obtain a b where "map sql_lower_char t = a @ map sql_lower_char q @ b"
      unfolding sublist_def by blast
    then obtain w r where t: "t = w @ r" and "map sql_lower_char r = map sql_lower_char q @ b"
      by (metis map_eq_append_conv)
    then obtain u v where "r = u @ v" "map sql_lower_char u = map sql_lower_char q"
      by (metis map_eq_append_conv)
    with t show "\<exists>w u v. t = w @ u @ v \<and> map sql_lower_char u = map sql_lower_char q" by blast
  qed
  finally show ?thesis .
qed

lemma sql_lower_char_idem: "sql_lower_char (sql_lower_char c) = sql_lower_char c"
  by (simp add: sql_lower_char_def Let_def)

lemma sql_lower_char_lower_char: "sql_lower_char (lower_char c) = lower_char c"
  by (simp add: sql_lower_char_def lower_char_def Let_def)

lemma sql_fold_lower: "map sql_lower_char (lower s) = lower s"
  by (simp add: lower_def sql_lower_char_lower_char)

lemma sql_fold_c_string_LOWER: "map sql_lower_char (c_string (LOWER s)) = c_string (LOWER s)"
proof (rule map_idI)
  fix x assume "x \<in> set (c_string (LOWER s))"
  then have "x \<in> set (LOWER s)"
    unfolding c_string_def by (rule set_takeWhileD [THEN conjunct1])
  then obtain y where "x = sql_lower_char y" by (auto simp: LOWER_def)
  then show "sql_lower_char x = x" by (simp add: sql_lower_char_idem)
qed

lemma c_string_no_NUL: "CHR 0x00 \<notin> set (c_string s)"
  unfolding c_string_def by (auto dest: set_takeWhileD)

lemma c_string_id: "CHR 0x00 \<notin> set s \<Longrightarrow> c_string s = s"
  unfolding c_string_def by (auto simp: takeWhile_eq_all_conv)

lemma c_string_query_param:
  assumes "CHR 0x00 \<notin> set q"
  shows "c_string (''%'' @ q @ ''%'') = ''%'' @ q @ ''%''"
  using assms by (intro c_string_id) simp

lemma sql_lower_char_NUL: "sql_lower_char c = CHR 0x00 \<longleftrightarrow> c = CHR 0x00"
proof
  assume h: "sql_lower_char c = CHR 0x00"
  show "c = CHR 0x00"
  proof (cases "65 \<le> (of_char c :: nat) \<and> (of_char c :: nat) \<le> 90")
    case True
    with h have "char_of ((of_char c :: nat) + 32) = CHR 0x00"
      by (simp add: sql_lower_char_def Let_def)
    then have "(of_char (char_of ((of_char c :: nat) + 32)) :: nat) = of_char (CHR 0x00)"
      by simp
    with True show ?thesis by simp
  next
    case False
    with h show ?thesis by (simp add: sql_lower_char_def Let_def)
  qed
next
  assume "c = CHR 0x00"
  then show "sql_lower_char c = CHR 0x00" by (simp add: sql_lower_char_def Let_def)
qed

lemma LOWER_no_NUL:
  assumes "CHR 0x00 \<notin> set s"
  shows "CHR 0x00 \<notin> set (LOWER s)"
proof
  assume "CHR 0x00 \<in> set (LOWER s)"
  then obtain y where y: "y \<in> set s" "sql_lower_char y = CHR 0x00"
    by (auto simp: LOWER_def)
  from y(2) have "y = CHR 0x00" by (simp only: sql_lower_char_NUL)
  with y(1) assms show False by simp
qed

lemma like_occurrence:
  assumes "sublist q (c_string t)"
  shows "like (''%'' @ q @ ''%'') t"
proof -
  from assms have "set q \<subseteq> set (c_string t)" by (rule set_mono_sublist)
  with c_string_no_NUL [of t] have "CHR 0x00 \<notin> set q" by blast
  then have "c_string (''%'' @ q @ ''%'') = ''%'' @ q @ ''%''" by (rule c_string_query_param)
  with patternCompare_occurrence [OF assms] show ?thesis by (simp only: like_def)
qed

lemma like_query_param:
  assumes "\<forall>c \<in> set (lower (strip query)). \<not> wildcard c \<and> c \<noteq> CHR 0x00"
  shows "like (''%'' @ lower (strip query) @ ''%'') (LOWER x) \<longleftrightarrow>
           sublist (lower (strip query)) (c_string (LOWER x))"
proof -
  from assms have w: "\<forall>c \<in> set (lower (strip query)). \<not> wildcard c"
    and n: "CHR 0x00 \<notin> set (lower (strip query))" by auto
  have "like (''%'' @ lower (strip query) @ ''%'') (LOWER x) \<longleftrightarrow>
          patternCompare (''%'' @ lower (strip query) @ ''%'') (c_string (LOWER x))"
    by (simp only: like_def c_string_query_param [OF n])
  also have "\<dots> \<longleftrightarrow> sublist (map sql_lower_char (lower (strip query)))
                          (map sql_lower_char (c_string (LOWER x)))"
    by (rule patternCompare_contains [OF w])
  also have "\<dots> \<longleftrightarrow> sublist (lower (strip query)) (c_string (LOWER x))"
    by (simp only: sql_fold_lower sql_fold_c_string_LOWER)
  finally show ?thesis .
qed

lemma find_books_ok:
  assumes "\<not> env Connect" and "\<not> env Execute"
    and "utf8_length (''%'' @ lower (strip query) @ ''%'') \<le> like_pattern_limit"
  shows "find_books env db query =
           (Inr (filter (\<lambda>b. like (''%'' @ lower (strip query) @ ''%'') (LOWER (name b))
                          \<or> like (''%'' @ lower (strip query) @ ''%'') (LOWER (subject b)))
                   (books db)), db)"
  using assms by (simp add: find_books_def Let_def)

subsection \<open>Substring search\<close>

text \<open>The seed data, as inserted into an empty database.\<close>

lemma seed_db_rows:
  "seed_db = \<lparr>books =
     [\<lparr>book_id = 1, name = ''The C++ Programming Language'', subject = ''Computer Science'',
        price = 750, edition = 4\<rparr>,
      \<lparr>book_id = 2, name = ''Calculus: Early Transcendentals'', subject = ''Mathematics'',
        price = 980.5, edition = 8\<rparr>,
      \<lparr>book_id = 3, name = ''Introduction to Data Science'', subject = ''Computer Science'',
        price = 620, edition = 2\<rparr>,
      \<lparr>book_id = 4, name = ''Linear Algebra and Its Applications'', subject = ''Mathematics'',
        price = 850, edition = 5\<rparr>,
      \<lparr>book_id = 5, name = ''Organic Chemistry'', subject = ''Science'',
        price = 1100, edition = 10\<rparr>],
     sqlite_sequence = 5\<rparr>"
  by (simp add: seed_db_def insert_initial_data_def initial_books_def insert_row_def
      next_rowid_def empty_db_def)

lemma no_fault_ok: "\<not> no_fault Connect" "\<not> no_fault Execute"
  by (simp_all add: no_fault_def)

lemma short_pattern:
  assumes "length q \<le> 100"
  shows "utf8_length (''%'' @ q @ ''%'') \<le> like_pattern_limit"
proof -
  have "utf8_length s \<le> 2 * length s" for s
    unfolding utf8_length_def by (induction s) auto
  from this [of "''%'' @ q @ ''%''"] assms show ?thesis
    by (simp add: like_pattern_limit_def)
qed

text \<open>
  Claim C1, as amended. Let the read succeed. When the pattern is within SQLite's length
  limit, \<open>find_books\<close> returns rows of the table in table order, among them every book
  in whose name or subject, after SQLite's \<open>LOWER\<close> and up to its first NUL, the
  trimmed, lower-cased query occurs; this holds for every query. When moreover the
  query holds no percent sign, no underscore and no NUL, the result is exactly those
  books; and where the stored names and subjects hold no NUL and \<open>LOWER\<close> agrees
  with \<open>str.lower\<close> on them, this is the result the specification words. When the
  pattern is longer than the limit, the result is the empty list.
\<close>

theorem find_books_substring:
  assumes ok: "\<not> env Connect" "\<not> env Execute"
  shows "(utf8_length (''%'' @ lower (strip query) @ ''%'') \<le> like_pattern_limit \<longrightarrow>
          (\<exists>rs. find_books env db query = (Inr rs, db)
             \<and> subseq rs (books db)
             \<and> (\<forall>b \<in> set (books db).
                   sublist (lower (strip query)) (c_string (LOWER (name b)))
                   \<or> sublist (lower (strip query)) (c_string (LOWER (subject b)))
                   \<longrightarrow> b \<in> set rs)
             \<and> ((\<forall>c \<in> set (lower (strip query)). \<not> wildcard c \<and> c \<noteq> CHR 0x00) \<longrightarrow>
                  rs = filter (\<lambda>b. sublist (lower (strip query)) (c_string (LOWER (name b)))
                                  \<or> sublist (lower (strip query)) (c_string (LOWER (subject b))))
                         (books db))
             \<and> ((\<forall>c \<in> set (lower (strip query)). \<not> wildcard c \<and> c \<noteq> CHR 0x00)
                  \<and> (\<forall>b \<in> set (books db).
                        CHR 0x00 \<notin> set (name b) \<and> CHR 0x00 \<notin> set (subject b)
                        \<and> LOWER (name b) = lower (name b)
                        \<and> LOWER (subject b) = lower (subject b))
                  \<longrightarrow> rs = search_spec db query)))
       \<and> (like_pattern_limit < utf8_length (''%'' @ lower (strip query) @ ''%'') \<longrightarrow>
            find_books env db query = (Inr [], db))"
proof -
  let ?q = "lower (strip query)"
  let ?p = "''%'' @ ?q @ ''%''"
  let ?rs = "filter (\<lambda>b. like ?p (LOWER (name b)) \<or> like ?p (LOWER (subject b))) (books db)"
  let ?occ = "\<lambda>b. sublist ?q (c_string (LOWER (name b))) \<or> sublist ?q (c_string (LOWER (subject b)))"
  have r: "find_books env db query = (Inr ?rs, db)"
    if len: "utf8_length ?p \<le> like_pattern_limit"
    using ok len by (rule find_books_ok)
  have s: "subseq ?rs (books db)" by simp
  have c: "\<forall>b \<in> set (books db). ?occ b \<longrightarrow> b \<in> set ?rs"
    using like_occurrence by auto
  have e: "?rs = filter ?occ (books db)"
    if w: "\<forall>c \<in> set ?q. \<not> wildcard c \<and> c \<noteq> CHR 0x00"
    by (simp only: like_query_param [OF w])
  have f: "?rs = search_spec db query"
    if w: "\<forall>c \<in> set ?q. \<not> wildcard c \<and> c \<noteq> CHR 0x00"
      and t: "\<forall>b \<in> set (books db).
                CHR 0x00 \<notin> set (name b) \<and> CHR 0x00 \<notin> set (subject b)
                \<and> LOWER (name b) = lower (name b) \<and> LOWER (subject b) = lower (subject b)"
  proof -
    have "filter ?occ (books db) = filter (matches_spec query) (books db)"
    proof (rule filter_cong [OF refl])
      fix b assume b: "b \<in> set (books db)"
      with t have n: "c_string (LOWER (name b)) = lower (name b)"
        and m: "c_string (LOWER (subject b)) = lower (subject b)"
        using c_string_id [OF LOWER_no_NUL, of "name b"]
          c_string_id [OF LOWER_no_NUL, of "subject b"] by auto
      show "?occ b = matches_spec query b"
        by (simp only: n m matches_spec_def)
    qed
    with e [OF w] show ?thesis by (simp only: search_spec_def)
  qed
  have g: "find_books env db query = (Inr [], db)"
    if "like_pattern_limit < utf8_length ?p"
    using ok that by (cases "books db") (simp_all add: find_books_def Let_def)
  from r s c e f g show ?thesis by blast
qed

theorem find_books_substring_witness:
  "\<not> no_fault Connect \<and> \<not> no_fault Execute
   \<and> utf8_length (''%'' @ lower (strip ''  SCIENCE '') @ ''%'') \<le> like_pattern_limit
   \<and> list_all (\<lambda>c. \<not> wildcard c \<and> c \<noteq> CHR 0x00) (lower (strip ''  SCIENCE ''))
   \<and> list_all (\<lambda>b. CHR 0x00 \<notin> set (name b) \<and> CHR 0x00 \<notin> set (subject b)
                    \<and> LOWER (name b) = lower (name b) \<and> LOWER (subject b) = lower (subject b))
        (books seed_db)
   \<and> map book_id (search_spec seed_db ''  SCIENCE '') = [1, 3, 5]
   \<and> find_books no_fault seed_db ''  SCIENCE '' = (Inr (search_spec seed_db ''  SCIENCE ''), seed_db)"
proof -
  have q: "lower (strip ''  SCIENCE '') = ''science''"
    by code_simp
  have h0: "utf8_length (''%'' @ lower (strip ''  SCIENCE '') @ ''%'') \<le> like_pattern_limit"
    by (rule short_pattern) (simp add: q)
  have l3: "list_all (\<lambda>c. \<not> wildcard c \<and> c \<noteq> CHR 0x00) (lower (strip ''  SCIENCE ''))"
    by code_simp
  then have h3: "\<forall>c \<in> set (lower (strip ''  SCIENCE '')). \<not> wildcard c \<and> c \<noteq> CHR 0x00"
    by (simp only: list_all_iff)
  have l4: "list_all (\<lambda>b. CHR 0x00 \<notin> set (name b) \<and> CHR 0x00 \<notin> set (subject b)
                    \<and> LOWER (name b) = lower (name b) \<and> LOWER (subject b) = lower (subject b))
              (books seed_db)"
    by code_simp
  then have h4: "\<forall>b \<in> set (books seed_db).
                   CHR 0x00 \<notin> set (name b) \<and> CHR 0x00 \<notin> set (subject b)
                   \<and> LOWER (name b) = lower (name b) \<and> LOWER (subject b) = lower (subject b)"
    by (simp only: list_all_iff)
  have h5: "map book_id (search_spec seed_db ''  SCIENCE '') = [1, 3, 5]"
    by code_simp
  from find_books_substring [OF no_fault_ok, of "''  SCIENCE ''" seed_db, THEN conjunct1,
         THEN mp, OF h0]
  obtain rs where r: "find_books no_fault seed_db ''  SCIENCE '' = (Inr rs, seed_db)"
    and f: "(\<forall>c \<in> set (lower (strip ''  SCIENCE '')). \<not> wildcard c \<and> c \<noteq> CHR 0x00)
                  \<and> (\<forall>b \<in> set (books seed_db).
                        CHR 0x00 \<notin> set (name b) \<and> CHR 0x00 \<notin> set (subject b)
                        \<and> LOWER (name b) = lower (name b)
                        \<and> LOWER (subject b) = lower (subject b))
                  \<longrightarrow> rs = search_spec seed_db ''  SCIENCE ''"
    by (elim exE conjE) (rule that)
  from f h3 h4 have "rs = search_spec seed_db ''  SCIENCE ''" by blast
  with r
  have "find_books no_fault seed_db ''  SCIENCE '' = (Inr (search_spec seed_db ''  SCIENCE ''), seed_db)"
    by simp
  with no_fault_ok h0 l3 l4 h5 show ?thesis by blast
qed

text \<open>
  As the claim is stated it fails, in three ways. An underscore in the query is a
  wildcard of \<open>LIKE\<close>: on the seed data the query \<open>_\<close> returns all five books, none of
  which holds an underscore. The pattern ends at its first NUL: the query U+0000
  returns all five books as well. And \<open>LOWER\<close> folds ASCII letters only: the book
  named U+00C9 is not found by the query U+00E9, although \<open>str.lower\<close> of its name is
  that query.
\<close>

theorem find_books_wildcard_counterexample:
  "fst (find_books no_fault seed_db ''_'') = Inr (books seed_db)
   \<and> search_spec seed_db ''_'' = []
   \<and> fst (find_books no_fault seed_db ''_'') \<noteq> Inr (search_spec seed_db ''_'')
   \<and> fst (find_books no_fault seed_db [CHR 0x00]) = Inr (books seed_db)
   \<and> search_spec seed_db [CHR 0x00] = []
   \<and> fst (find_books no_fault accent_db [CHR 0xE9]) = Inr []
   \<and> search_spec accent_db [CHR 0xE9] = books accent_db
   \<and> length (books accent_db) = 1"
proof -
  have c: "books seed_db \<noteq> []"
    by (simp add: seed_db_rows)
  have q1: "lower (strip ''_'') = ''_''" by code_simp
  have "filter (\<lambda>b. like (''%'' @ lower (strip ''_'') @ ''%'') (LOWER (name b))
                     \<or> like (''%'' @ lower (strip ''_'') @ ''%'') (LOWER (subject b)))
          (books seed_db) = books seed_db"
    by code_simp
  with find_books_ok [OF no_fault_ok short_pattern, of "''_''" seed_db]
  have a1: "fst (find_books no_fault seed_db ''_'') = Inr (books seed_db)"
    by (simp add: q1)
  have b1: "search_spec seed_db ''_'' = []"
    by code_simp
  have q2: "lower (strip [CHR 0x00]) = [CHR 0x00]" by code_simp
  have "filter (\<lambda>b. like (''%'' @ lower (strip [CHR 0x00]) @ ''%'') (LOWER (name b))
                     \<or> like (''%'' @ lower (strip [CHR 0x00]) @ ''%'') (LOWER (subject b)))
          (books seed_db) = books seed_db"
    by code_simp
  with find_books_ok [OF no_fault_ok short_pattern, of "[CHR 0x00]" seed_db]
  have a2: "fst (find_books no_fault seed_db [CHR 0x00]) = Inr (books seed_db)"
    by (simp add: q2)
  have b2: "search_spec seed_db [CHR 0x00] = []"
    by code_simp
  have q3: "lower (strip [CHR 0xE9]) = [CHR 0xE9]" by code_simp
  have "filter (\<lambda>b. like (''%'' @ lower (strip [CHR 0xE9]) @ ''%'') (LOWER (name b))
                     \<or> like (''%'' @ lower (strip [CHR 0xE9]) @ ''%'') (LOWER (subject b)))
          (books accent_db) = []"
    by code_simp
  with find_books_ok [OF no_fault_ok short_pattern, of "[CHR 0xE9]" accent_db]
  have a3: "fst (find_books no_fault accent_db [CHR 0xE9]) = Inr []"
    by (simp add: q3)
  have b3: "search_spec accent_db [CHR 0xE9] = books accent_db"
    by code_simp
  have c3: "length (books accent_db) = 1"
    by (simp add: accent_db_def insert_row_def empty_db_def)
  from a1 b1 c a2 b2 a3 b3 c3 show ?thesis by simp
qed

lemma like_two_percent: "like ''%%'' t"
proof -
  have "c_string ''%%'' = ''%%''" by (simp add: c_string_def)
  moreover have "patternCompare ''%%'' s" for s
    using patternCompare_percent_iff [of "''%''" s] patternCompare_percent_all by blast
  ultimately show ?thesis by (simp only: like_def)
qed

lemma utf8_length_two_percent: "utf8_length ''%%'' = 2"
  by (simp add: utf8_length_def)

text \<open>
  Claim C9. When the read succeeds, \<open>find_books\<close> on the empty query returns every row
  of the table: the pattern is \<open>%%\<close>, which matches every string.
\<close>

theorem find_books_empty_query:
  assumes "\<not> env Connect" and "\<not> env Execute"
  shows "find_books env db [] = (Inr (books db), db)"
  using assms
  by (simp add: find_books_def strip_def lower_def like_two_percent utf8_length_two_percent
      like_pattern_limit_def)

theorem find_books_empty_query_witness:
  "\<not> no_fault Connect \<and> \<not> no_fault Execute
   \<and> find_books no_fault seed_db [] = (Inr (books seed_db), seed_db)
   \<and> length (books seed_db) = 5"
proof -
  have h1: "\<not> no_fault Connect" and h2: "\<not> no_fault Execute"
    by (simp_all add: no_fault_def)
  have "length (books seed_db) = 5" by code_simp
  with h1 h2 find_books_empty_query [OF h1 h2, of seed_db] show ?thesis by blast
qed

section \<open>Removing\<close>

lemma rowcount_positive:
  "length (filter P xs) < length xs \<longleftrightarrow> (\<exists>x \<in> set xs. \<not> P x)"
proof (induction xs)
  case Nil
  then show ?case by simp
next
  case (Cons x xs)
  have "length (filter P xs) \<le> length xs" by simp
  with Cons show ?case by (auto simp: less_Suc_eq_le)
qed

lemma filter_absent: "i \<notin> book_id ` set xs \<Longrightarrow> filter (\<lambda>b. book_id b \<noteq> i) xs = xs"
  by (induction xs) auto

lemma remove_book_absent:
  assumes "i \<notin> book_id ` set (books db)"
  shows "snd (remove_book env db i) = db" and "fst (remove_book env db i) \<noteq> Inr True"
    and "\<not> env Connect \<Longrightarrow> int64 i \<Longrightarrow> fst (remove_book env db i) = Inr False"
  using assms by (simp_all add: remove_book_def Let_def filter_absent)

lemma remove_book_True:
  "fst (remove_book env db i) = Inr True \<longleftrightarrow>
     \<not> env Connect \<and> int64 i \<and> \<not> env Execute \<and> \<not> env Commit \<and> i \<in> book_id ` set (books db)"
  by (auto simp: remove_book_def Let_def rowcount_positive)

lemma remove_book_True_store:
  "fst (remove_book env db i) = Inr True \<Longrightarrow>
     snd (remove_book env db i) = db\<lparr>books := filter (\<lambda>b. book_id b \<noteq> i) (books db)\<rparr>"
  by (simp add: remove_book_def Let_def split: if_splits)


text \<open>
  Claim C6. When no step fails and a row with the key is in the table, \<open>remove_book\<close>
  deletes the rows with that key, keeps every other row, and returns \<open>True\<close>.
  It returns \<open>True\<close> exactly when a row with the key was in the table and is gone
  afterwards, and then the table has lost the rows with that key and nothing else. On
  a key that is not in the table the call leaves the database as it was and, whenever
  it returns at all, returns \<open>False\<close>; so a second removal after a successful one
  returns \<open>False\<close> and changes nothing.
\<close>

theorem remove_book_idempotent:
  "(\<not> env Connect \<and> int64 i \<and> \<not> env Execute \<and> \<not> env Commit
      \<and> i \<in> book_id ` set (books db) \<longrightarrow>
      remove_book env db i
        = (Inr True, db\<lparr>books := filter (\<lambda>b. book_id b \<noteq> i) (books db)\<rparr>))
   \<and> (fst (remove_book env db i) = Inr True \<longleftrightarrow>
      i \<in> book_id ` set (books db) \<and> i \<notin> book_id ` set (books (snd (remove_book env db i))))
   \<and> (fst (remove_book env db i) = Inr True \<longrightarrow>
        snd (remove_book env db i) = db\<lparr>books := filter (\<lambda>b. book_id b \<noteq> i) (books db)\<rparr>)
   \<and> (i \<notin> book_id ` set (books db) \<longrightarrow>
        snd (remove_book env db i) = db
        \<and> fst (remove_book env db i) \<noteq> Inr True
        \<and> (\<not> env Connect \<and> int64 i \<longrightarrow> fst (remove_book env db i) = Inr False))
   \<and> (fst (remove_book env db i) = Inr True \<and> \<not> env' Connect \<longrightarrow>
        remove_book env' (snd (remove_book env db i)) i = (Inr False, snd (remove_book env db i)))"
proof -
  let ?db' = "snd (remove_book env db i)"
  have gone: "i \<notin> book_id ` set (books ?db')" if "fst (remove_book env db i) = Inr True"
    using remove_book_True_store [OF that] by auto
  have a: "fst (remove_book env db i) = Inr True \<longleftrightarrow>
      i \<in> book_id ` set (books db) \<and> i \<notin> book_id ` set (books ?db')"
  proof
    assume t: "fst (remove_book env db i) = Inr True"
    then show "i \<in> book_id ` set (books db) \<and> i \<notin> book_id ` set (books ?db')"
      using gone by (simp add: remove_book_True)
  next
    assume p: "i \<in> book_id ` set (books db) \<and> i \<notin> book_id ` set (books ?db')"
    then have ne: "?db' \<noteq> db" by auto
    have "\<not> env Connect \<and> int64 i \<and> \<not> env Execute \<and> \<not> env Commit"
    proof (rule ccontr)
      assume "\<not> (\<not> env Connect \<and> int64 i \<and> \<not> env Execute \<and> \<not> env Commit)"
      then have "?db' = db" by (auto simp: remove_book_def)
      with ne show False by simp
    qed
    with p show "fst (remove_book env db i) = Inr True"
      by (simp add: remove_book_True)
  qed
  have b: "snd (remove_book env db i) = db\<lparr>books := filter (\<lambda>b. book_id b \<noteq> i) (books db)\<rparr>"
    if "fst (remove_book env db i) = Inr True"
    using that by (rule remove_book_True_store)
  have c: "snd (remove_book env db i) = db
        \<and> fst (remove_book env db i) \<noteq> Inr True
        \<and> (\<not> env Connect \<and> int64 i \<longrightarrow> fst (remove_book env db i) = Inr False)"
    if "i \<notin> book_id ` set (books db)"
    using remove_book_absent [OF that, of env] by blast
  have d: "remove_book env' ?db' i = (Inr False, ?db')"
    if t: "fst (remove_book env db i) = Inr True" and c: "\<not> env' Connect"
  proof -
    from t have i: "int64 i" by (simp add: remove_book_True)
    have "snd (remove_book env' ?db' i) = ?db'"
      and "fst (remove_book env' ?db' i) = Inr False"
      using remove_book_absent [OF gone [OF t], of env'] c i by blast+
    then show ?thesis by (simp add: prod_eq_iff)
  qed
  have e: "remove_book env db i
        = (Inr True, db\<lparr>books := filter (\<lambda>b. book_id b \<noteq> i) (books db)\<rparr>)"
    if h: "\<not> env Connect \<and> int64 i \<and> \<not> env Execute \<and> \<not> env Commit
      \<and> i \<in> book_id ` set (books db)"
  proof -
    from h have t: "fst (remove_book env db i) = Inr True"
      by (simp add: remove_book_True)
    with remove_book_True_store [OF t] show ?thesis by (simp add: prod_eq_iff)
  qed
  from e a b c d show ?thesis by blast
qed

lemma int64_3: "int64 3"
  by (simp add: int64_def)

theorem remove_book_idempotent_witness:
  "\<not> no_fault Connect \<and> int64 3 \<and> \<not> no_fault Execute \<and> \<not> no_fault Commit
   \<and> 3 \<in> book_id ` set (books seed_db)
   \<and> remove_book no_fault seed_db 3
       = (Inr True, seed_db\<lparr>books := filter (\<lambda>b. book_id b \<noteq> 3) (books seed_db)\<rparr>)
   \<and> map book_id (books (snd (remove_book no_fault seed_db 3))) = [1, 2, 4, 5]
   \<and> remove_book no_fault (snd (remove_book no_fault seed_db 3)) 3
       = (Inr False, snd (remove_book no_fault seed_db 3))"
proof -
  have h: "\<not> no_fault Connect \<and> int64 3 \<and> \<not> no_fault Execute \<and> \<not> no_fault Commit
           \<and> 3 \<in> book_id ` set (books seed_db)"
    by (simp add: no_fault_def int64_3 seed_db_rows)
  note T = remove_book_idempotent
             [where env = no_fault and db = seed_db and i = 3 and env' = no_fault]
  from T h have r: "remove_book no_fault seed_db 3
       = (Inr True, seed_db\<lparr>books := filter (\<lambda>b. book_id b \<noteq> 3) (books seed_db)\<rparr>)"
    by blast
  then have t: "fst (remove_book no_fault seed_db 3) = Inr True" by simp
  from r have m: "map book_id (books (snd (remove_book no_fault seed_db 3))) = [1, 2, 4, 5]"
    by (simp add: seed_db_rows)
  from T t h
  have "remove_book no_fault (snd (remove_book no_fault seed_db 3)) 3
       = (Inr False, snd (remove_book no_fault seed_db 3))" by blast
  with h r m show ?thesis by blast
qed

section \<open>Adding\<close>

lemma fold_max_ge_start: "a \<le> fold max xs (a::int)"
proof (induction xs arbitrary: a)
  case Nil
  then show ?case by simp
next
  case (Cons x xs)
  have "a \<le> max x a" by simp
  also have "\<dots> \<le> fold max xs (max x a)" by (rule Cons.IH)
  finally show ?case by simp
qed

lemma fold_max_ge_elem: "x \<in> set xs \<Longrightarrow> x \<le> fold max xs (a::int)"
proof (induction xs arbitrary: a)
  case Nil
  then show ?case by simp
next
  case (Cons y ys)
  show ?case
  proof (cases "x = y")
    case True
    have "x \<le> max y a" using True by simp
    also have "\<dots> \<le> fold max ys (max y a)" by (rule fold_max_ge_start)
    finally show ?thesis by simp
  next
    case False
    with Cons.prems have "x \<in> set ys" by simp
    then show ?thesis using Cons.IH by simp
  qed
qed

lemma next_rowid_fresh: "next_rowid db \<notin> book_id ` set (books db)"
proof
  assume "next_rowid db \<in> book_id ` set (books db)"
  then have "next_rowid db \<in> set (map book_id (books db))" by simp
  then have "next_rowid db \<le> fold max (map book_id (books db)) 0"
    by (rule fold_max_ge_elem)
  then show False by (simp add: next_rowid_def)
qed

text \<open>
  Claim C4, as amended. \<open>add_book\<close> checks neither name nor subject, and it receives
  price and edition already coerced by its caller. When the connection cannot be opened
  it raises; when the statement or the commit fails it returns \<open>None\<close>; in both cases,
  and in every other case in which no key is returned, the database is left as it was.
  When all steps succeed it appends the row as given, whatever name and subject are, and
  returns its key, which no row of the table had before.
\<close>

theorem add_book_outcome:
  "(env Connect \<longrightarrow> add_book env db nm subj pr ed = (Inl Sqlite_Error, db))
   \<and> (\<not> env Connect \<and> int64 ed \<and> (env Execute \<or> env Commit) \<longrightarrow>
        add_book env db nm subj pr ed = (Inr None, db))
   \<and> (\<not> env Connect \<and> \<not> env Execute \<and> \<not> env Commit \<and> int64 ed \<and> int64 (next_rowid db) \<longrightarrow>
        (\<exists>i. add_book env db nm subj pr ed =
                (Inr (Some i),
                 \<lparr>books = books db @
                    [\<lparr>book_id = i, name = nm, subject = subj, price = pr, edition = ed\<rparr>],
                  sqlite_sequence = i\<rparr>)
              \<and> i \<notin> book_id ` set (books db)))
   \<and> ((\<forall>i. fst (add_book env db nm subj pr ed) \<noteq> Inr (Some i)) \<longrightarrow>
        snd (add_book env db nm subj pr ed) = db)"
proof -
  have a: "add_book env db nm subj pr ed = (Inl Sqlite_Error, db)" if "env Connect"
    using that by (simp add: add_book_def)
  have b: "add_book env db nm subj pr ed = (Inr None, db)"
    if "\<not> env Connect \<and> int64 ed \<and> (env Execute \<or> env Commit)"
    using that by (auto simp: add_book_def)
  have c: "\<exists>i. add_book env db nm subj pr ed =
                (Inr (Some i),
                 \<lparr>books = books db @
                    [\<lparr>book_id = i, name = nm, subject = subj, price = pr, edition = ed\<rparr>],
                  sqlite_sequence = i\<rparr>)
              \<and> i \<notin> book_id ` set (books db)"
    if "\<not> env Connect \<and> \<not> env Execute \<and> \<not> env Commit \<and> int64 ed \<and> int64 (next_rowid db)"
  proof -
    from that have "add_book env db nm subj pr ed =
                (Inr (Some (next_rowid db)),
                 \<lparr>books = books db @
                    [\<lparr>book_id = next_rowid db, name = nm, subject = subj, price = pr,
                      edition = ed\<rparr>],
                  sqlite_sequence = next_rowid db\<rparr>)"
      by (simp add: add_book_def insert_row_def)
    with next_rowid_fresh [of db] show ?thesis by blast
  qed
  have d: "snd (add_book env db nm subj pr ed) = db"
    if "\<forall>i. fst (add_book env db nm subj pr ed) \<noteq> Inr (Some i)"
    using that by (auto simp: add_book_def split: if_splits)
  from a b c d show ?thesis by blast
qed

theorem add_book_outcome_witness:
  "\<not> statement_fails Connect \<and> int64 1 \<and> statement_fails Execute
   \<and> add_book statement_fails seed_db ''X'' ''Y'' 10 1 = (Inr None, seed_db)"
proof -
  have h: "\<not> statement_fails Connect \<and> int64 1 \<and> (statement_fails Execute \<or> statement_fails Commit)"
    by (simp add: statement_fails_def int64_def)
  with add_book_outcome [of statement_fails seed_db "''X''" "''Y''" 10 1]
  have "add_book statement_fails seed_db ''X'' ''Y'' 10 1 = (Inr None, seed_db)" by blast
  with h show ?thesis by (simp add: statement_fails_def)
qed

text \<open>
  As the claim is stated it fails: an empty name signals nothing and is persisted.
\<close>

theorem add_book_empty_name_counterexample:
  "fst (add_book no_fault seed_db [] ''Science'' 10 1) = Inr (Some 6)
   \<and> map name (books (snd (add_book no_fault seed_db [] ''Science'' 10 1)))
       = map name (books seed_db) @ [[]]"
  by (simp add: add_book_def no_fault_def int64_def insert_row_def next_rowid_def seed_db_rows)

section \<open>Failing reads\<close>

text \<open>
  Claim C5, as amended. When the read statement fails, \<open>find_books\<close> and
  \<open>get_all_books\<close> catch the error and return the empty list, the value they also
  return for no match and for an empty table; only a failure to open the connection
  reaches the caller as an exception.
\<close>

theorem read_failure_outcome:
  "(env Connect \<longrightarrow>
      find_books env db query = (Inl Sqlite_Error, db)
      \<and> get_all_books env db = (Inl Sqlite_Error, db))
   \<and> (\<not> env Connect \<and> env Execute \<longrightarrow>
        find_books env db query = (Inr [], db) \<and> get_all_books env db = (Inr [], db))"
  by (simp add: find_books_def get_all_books_def Let_def)

theorem read_failure_outcome_witness:
  "\<not> statement_fails Connect \<and> statement_fails Execute
   \<and> find_books statement_fails seed_db ''science'' = (Inr [], seed_db)
   \<and> get_all_books statement_fails seed_db = (Inr [], seed_db)"
proof -
  have h: "\<not> statement_fails Connect \<and> statement_fails Execute"
    by (simp add: statement_fails_def)
  with read_failure_outcome [of statement_fails seed_db "''science''"] show ?thesis by blast
qed

text \<open>
  As the claim is stated it fails: with the statement failing on the seed data, both
  reads return the empty list although the table holds five rows.
\<close>

theorem read_failure_swallowed_counterexample:
  "fst (get_all_books statement_fails seed_db) = Inr []
   \<and> fst (find_books statement_fails seed_db []) = Inr []
   \<and> length (books seed_db) = 5"
  by (simp add: get_all_books_def find_books_def statement_fails_def seed_db_rows)

section \<open>Reads leave the table alone\<close>

lemma get_all_books_store: "snd (get_all_books env db) = db"
  by (simp add: get_all_books_def)

lemma determine_target_store: "snd (determine_target iter env db query found_books) = db"
proof (cases found_books)
  case Nil
  obtain r d where g: "get_all_books env db = (r, d)" by (cases "get_all_books env db")
  with get_all_books_store [of env db] have d: "d = db" by simp
  show ?thesis
    using Nil g d by (cases r) (simp_all add: determine_target_def Let_def split: option.splits)
next
  case (Cons b bs)
  then show ?thesis by (simp add: determine_target_def)
qed

lemma fetch_related_store: "snd (fetch_related env db query t) = db"
  by (simp add: fetch_related_def Let_def)

text \<open>
  Claim C10. Whatever the environment, the query and the found books, the database
  after \<open>find_books\<close> and after \<open>get_recommendations\<close> is the database before.
\<close>

theorem search_recommend_read_only:
  "snd (find_books env db query) = db
   \<and> snd (get_recommendations iter env1 env2 db query found_books) = db"
proof
  show "snd (find_books env db query) = db"
    by (simp add: find_books_def Let_def)
next
  obtain r d where t: "determine_target iter env1 db (lower (strip query)) found_books = (r, d)"
    by (cases "determine_target iter env1 db (lower (strip query)) found_books")
  with determine_target_store [of iter env1 db "lower (strip query)" found_books]
  have d: "d = db" by simp
  show "snd (get_recommendations iter env1 env2 db query found_books) = db"
    using t d fetch_related_store
    by (simp add: get_recommendations_def Let_def split: sum.splits)
qed

section \<open>Recommending\<close>

subsection \<open>The books of the target subject\<close>

lemma messages_nonempty:
  "no_match_message q ss \<noteq> []" "related_message t \<noteq> []" "error_message \<noteq> []"
  by (simp_all add: no_match_message_def related_message_def error_message_def)

lemma fetch_related_ok:
  "\<not> env Connect \<Longrightarrow> \<not> env Execute \<Longrightarrow>
   fetch_related env db q t =
     (Inr (related_message t, filter (\<lambda>b. subject b = t \<and> lower (name b) \<noteq> q) (books db)), db)"
  by (simp add: fetch_related_def)

lemma fetch_related_message: "fetch_related env db q t = (Inr (m, s), d) \<Longrightarrow> m \<noteq> []"
  by (auto simp: fetch_related_def messages_nonempty split: if_splits)

lemma determine_target_message:
  "determine_target iter env db q found = (Inr (Inl m), d) \<Longrightarrow> m \<noteq> []"
  by (auto simp: determine_target_def get_all_books_def Let_def messages_nonempty
      split: list.splits if_splits option.splits)

lemma get_recommendations_message:
  assumes "get_recommendations iter env1 env2 db query found = (Inr (m, s), d)"
  shows "m \<noteq> []"
proof -
  obtain r d' where t: "determine_target iter env1 db (lower (strip query)) found = (r, d')"
    by (cases "determine_target iter env1 db (lower (strip query)) found")
  show ?thesis
  proof (cases r)
    case (Inl e)
    with assms t show ?thesis by (simp add: get_recommendations_def)
  next
    case (Inr x)
    show ?thesis
    proof (cases x)
      case (Inl msg)
      with Inr t have "msg \<noteq> []" using determine_target_message by blast
      with assms t Inr Inl show ?thesis by (simp add: get_recommendations_def)
    next
      case (Inr tgt)
      with assms t \<open>r = Inr x\<close>
      have "fetch_related env2 d' (lower (strip query)) tgt = (Inr (m, s), d)"
        by (simp add: get_recommendations_def)
      then show ?thesis by (rule fetch_related_message)
    qed
  qed
qed

text \<open>
  Claim C2. When step 1 selects the target subject \<open>t\<close> and the subject query succeeds,
  \<open>get_recommendations\<close> returns the message naming \<open>t\<close> and, in table order, exactly
  the books whose subject equals \<open>t\<close> and whose lower-cased name is not the trimmed,
  lower-cased query. Whenever it returns a pair, the message is not empty. The list of
  suggestions can be empty although the message names a target subject: a table and a
  query exist for which it is.
\<close>

theorem recommendations_for_target:
  "(fst (determine_target iter env1 db (lower (strip query)) found_books) = Inr (Inr t)
      \<and> \<not> env2 Connect \<and> \<not> env2 Execute \<longrightarrow>
      get_recommendations iter env1 env2 db query found_books =
        (Inr (related_message t,
              filter (\<lambda>b. subject b = t \<and> lower (name b) \<noteq> lower (strip query)) (books db)),
         db))
   \<and> (\<forall>m s d. get_recommendations iter env1 env2 db query found_books = (Inr (m, s), d)
        \<longrightarrow> m \<noteq> [])
   \<and> (\<exists>db' q t'. get_recommendations insertion_order no_fault no_fault db' q []
                    = (Inr (related_message t', []), db'))"
proof -
  have a: "get_recommendations iter env1 env2 db query found_books =
        (Inr (related_message t,
              filter (\<lambda>b. subject b = t \<and> lower (name b) \<noteq> lower (strip query)) (books db)),
         db)"
    if h: "fst (determine_target iter env1 db (lower (strip query)) found_books) = Inr (Inr t)
      \<and> \<not> env2 Connect \<and> \<not> env2 Execute"
  proof -
    from h determine_target_store [of iter env1 db "lower (strip query)" found_books]
    have "determine_target iter env1 db (lower (strip query)) found_books = (Inr (Inr t), db)"
      by (simp add: prod_eq_iff)
    with h show ?thesis
      by (simp add: get_recommendations_def fetch_related_ok)
  qed
  have b: "\<forall>m s d. get_recommendations iter env1 env2 db query found_books = (Inr (m, s), d)
        \<longrightarrow> m \<noteq> []"
    using get_recommendations_message by blast
  have "get_recommendations insertion_order no_fault no_fault one_book_db ''math'' []
          = (Inr (related_message ''Mathematics'', []), one_book_db)"
    by code_simp
  then have c: "\<exists>db' q t'. get_recommendations insertion_order no_fault no_fault db' q []
                    = (Inr (related_message t', []), db')"
    by blast
  from a b c show ?thesis by blast
qed

theorem recommendations_for_target_witness:
  "fst (determine_target insertion_order no_fault seed_db (lower (strip '' Math '')) [])
     = Inr (Inr ''Mathematics'')
   \<and> \<not> no_fault Connect \<and> \<not> no_fault Execute
   \<and> get_recommendations insertion_order no_fault no_fault seed_db '' Math '' [] =
        (Inr (related_message ''Mathematics'',
              filter (\<lambda>b. subject b = ''Mathematics''
                          \<and> lower (name b) \<noteq> lower (strip '' Math '')) (books seed_db)),
         seed_db)
   \<and> map book_id (filter (\<lambda>b. subject b = ''Mathematics''
                          \<and> lower (name b) \<noteq> lower (strip '' Math '')) (books seed_db))
       = [2, 4]"
proof -
  have h1: "fst (determine_target insertion_order no_fault seed_db (lower (strip '' Math '')) [])
     = Inr (Inr ''Mathematics'')"
    by code_simp
  have h2: "\<not> no_fault Connect \<and> \<not> no_fault Execute"
    by (simp add: no_fault_def)
  have h3: "map book_id (filter (\<lambda>b. subject b = ''Mathematics''
                          \<and> lower (name b) \<noteq> lower (strip '' Math '')) (books seed_db))
       = [2, 4]"
    by code_simp
  from h1 h2 h3
    recommendations_for_target [of insertion_order no_fault seed_db "'' Math ''" "[]"
      "''Mathematics''" no_fault]
  show ?thesis by blast
qed

subsection \<open>No subject matches\<close>

lemma get_all_books_ok:
  "\<not> env Connect \<Longrightarrow> \<not> env Execute \<Longrightarrow>
   get_all_books env db = (Inr (rev (sort_key book_id (books db))), db)"
  by (simp add: get_all_books_def)

lemma listed_subjects:
  "set (map subject (rev (sort_key book_id xs))) = subject ` set xs"
  by simp

lemma set_order_insertion_order: "set_order insertion_order"
  by (simp add: set_order_def insertion_order_def)

lemma set_order_reverse_order: "set_order reverse_order"
  by (simp add: set_order_def reverse_order_def)

text \<open>
  Claim C3. When the found books are empty, the listing succeeds and no subject of the
  table holds the trimmed, lower-cased query in its lower-cased form,
  \<open>get_recommendations\<close> returns normally, with no suggestion and with the message that
  quotes the query and then lists the distinct subjects of the table, each once, joined
  by a comma and a space; for a table without books it says that no subjects are
  available. The order of the subjects in the message is the iteration order of the set.
\<close>

theorem no_match_lists_subjects:
  assumes order: "set_order iter"
    and ok: "\<not> env1 Connect" "\<not> env1 Execute"
    and none: "\<forall>b \<in> set (books db). \<not> sublist (lower (strip query)) (lower (subject b))"
  shows "\<exists>ss. distinct ss \<and> set ss = subject ` set (books db)
            \<and> get_recommendations iter env1 env2 db query [] =
                (Inr (''I couldn'' @ [CHR 0x27] @ ''t find a direct match for '' @ [CHR 0x27]
                        @ lower (strip query) @ [CHR 0x27]
                        @ ''. Try searching one of these subjects: ''
                        @ (if books db = [] then ''No subjects available.''
                           else join '', '' ss),
                      []),
                 db)"
proof -
  let ?q = "lower (strip query)"
  let ?ss = "iter (map subject (rev (sort_key book_id (books db))))"
  from order have d: "distinct ?ss"
    and s: "set ?ss = set (map subject (rev (sort_key book_id (books db))))"
    by (simp_all add: set_order_def)
  from s have s': "set ?ss = subject ` set (books db)"
    by (simp only: listed_subjects)
  from none s' have "\<forall>x \<in> set ?ss. \<not> sublist ?q (lower x)" by auto
  then have f: "find (\<lambda>x. sublist ?q (lower x)) ?ss = None"
    by (simp add: find_None_iff)
  from s' have e: "?ss = [] \<longleftrightarrow> books db = []"
    by (metis image_is_empty set_empty)
  have "get_recommendations iter env1 env2 db query [] =
          (Inr (no_match_message ?q ?ss, []), db)"
    using get_all_books_ok [OF ok, of db] f
    by (simp add: get_recommendations_def determine_target_def Let_def)
  then have "get_recommendations iter env1 env2 db query [] =
                (Inr (''I couldn'' @ [CHR 0x27] @ ''t find a direct match for '' @ [CHR 0x27]
                        @ ?q @ [CHR 0x27]
                        @ ''. Try searching one of these subjects: ''
                        @ (if books db = [] then ''No subjects available.''
                           else join '', '' ?ss),
                      []),
                 db)"
    using e by (simp add: no_match_message_def)
  with d s' show ?thesis by blast
qed

theorem no_match_lists_subjects_witness:
  "set_order insertion_order \<and> \<not> no_fault Connect \<and> \<not> no_fault Execute
   \<and> list_all (\<lambda>b. \<not> sublist (lower (strip '' Poetry '')) (lower (subject b))) (books seed_db)
   \<and> (\<exists>ss. distinct ss \<and> set ss = subject ` set (books seed_db)
        \<and> get_recommendations insertion_order no_fault no_fault seed_db '' Poetry '' [] =
                (Inr (''I couldn'' @ [CHR 0x27] @ ''t find a direct match for '' @ [CHR 0x27]
                        @ lower (strip '' Poetry '') @ [CHR 0x27]
                        @ ''. Try searching one of these subjects: ''
                        @ (if books seed_db = [] then ''No subjects available.''
                           else join '', '' ss),
                      []),
                 seed_db))"
proof -
  have h1: "\<not> no_fault Connect" and h2: "\<not> no_fault Execute"
    by (simp_all add: no_fault_def)
  have l3: "list_all (\<lambda>b. \<not> sublist (lower (strip '' Poetry '')) (lower (subject b)))
              (books seed_db)"
    by code_simp
  then have h3: "\<forall>b \<in> set (books seed_db).
              \<not> sublist (lower (strip '' Poetry '')) (lower (subject b))"
    by (simp only: list_all_iff)
  from no_match_lists_subjects [OF set_order_insertion_order h1 h2 h3, of no_fault]
    set_order_insertion_order h1 h2 l3
  show ?thesis by blast
qed

subsection \<open>The order in which the set yields its subjects\<close>

lemma find_unique:
  assumes "s \<in> set xs" and "P s" and "\<forall>x \<in> set xs. P x \<longrightarrow> x = s"
  shows "find P xs = Some s"
proof (cases "find P xs")
  case None
  then have "\<forall>x \<in> set xs. \<not> P x" by (simp add: find_None_iff)
  with assms(1,2) show ?thesis by blast
next
  case (Some y)
  then obtain i where "i < length xs" "P (xs ! i)" "y = xs ! i"
    unfolding find_Some_iff by blast
  then have "y \<in> set xs" "P y" by simp_all
  with assms(3) have "y = s" by blast
  with Some show ?thesis by simp
qed

lemma iter_subjects:
  assumes "set_order iter"
  shows "set (iter (map subject (rev (sort_key book_id xs)))) = subject ` set xs"
proof -
  from assms have "set (iter (map subject (rev (sort_key book_id xs))))
                     = set (map subject (rev (sort_key book_id xs)))"
    by (simp add: set_order_def)
  then show ?thesis by simp
qed

lemma iter_Nil:
  assumes "set_order iter"
  shows "iter [] = []"
proof -
  from assms have "set (iter []) = set ([] :: string list)"
    unfolding set_order_def by blast
  then show ?thesis by simp
qed

lemma determine_target_empty_found:
  "\<not> env Connect \<Longrightarrow> \<not> env Execute \<Longrightarrow>
   determine_target iter env db q [] =
     (case find (\<lambda>x. sublist q (lower x)) (iter (map subject (rev (sort_key book_id (books db))))) of
        None \<Rightarrow> (Inr (Inl (no_match_message q
                   (iter (map subject (rev (sort_key book_id (books db))))))), db)
      | Some s \<Rightarrow>
          if s = []
          then (Inr (Inl (no_match_message q
                   (iter (map subject (rev (sort_key book_id (books db))))))), db)
          else (Inr (Inr s), db))"
  by (simp add: determine_target_def get_all_books_def Let_def)

lemma determine_target_unique:
  assumes order: "set_order iter"
    and ok: "\<not> env Connect" "\<not> env Execute"
    and s: "s \<noteq> []" "s \<in> subject ` set (books db)" "sublist q (lower s)"
    and u: "\<forall>x \<in> subject ` set (books db). sublist q (lower x) \<longrightarrow> x = s"
  shows "determine_target iter env db q [] = (Inr (Inr s), db)"
proof -
  let ?ss = "iter (map subject (rev (sort_key book_id (books db))))"
  have ss: "set ?ss = subject ` set (books db)"
    using order by (rule iter_subjects)
  have m: "s \<in> set ?ss" using s(2) ss by simp
  have u': "\<forall>x \<in> set ?ss. sublist q (lower x) \<longrightarrow> x = s" using u ss by simp
  have "find (\<lambda>x. sublist q (lower x)) ?ss = Some s"
    using m s(3) u' by (rule find_unique)
  then show ?thesis
    using s(1) by (simp add: determine_target_empty_found [OF ok])
qed

lemma determine_target_no_rows:
  assumes "set_order iter" and "env Connect \<or> env Execute"
  shows "determine_target iter env db q [] =
           (if env Connect then (Inl Sqlite_Error, db)
            else (Inr (Inl (no_match_message q [])), db))"
proof (cases "env Connect")
  case True
  then show ?thesis by (simp add: determine_target_def get_all_books_def)
next
  case False
  with assms(2) have "env Execute" by simp
  with False show ?thesis
    by (simp add: determine_target_def get_all_books_def Let_def iter_Nil [OF assms(1)])
qed

text \<open>
  Claim C7, as amended. \<open>get_recommendations\<close> is a function of the database, the query,
  the found books, the two environments and the iteration order of the set of subjects.
  Two runs that differ in that order alone return the same pair whenever the found books
  are not empty, or exactly one subject of the table holds the trimmed, lower-cased
  query in its lower-cased form and that subject is not the empty string.
\<close>

theorem recommendations_order_independent:
  assumes o1: "set_order iter1" and o2: "set_order iter2"
    and h: "found_books \<noteq> []
            \<or> (\<exists>s. s \<noteq> [] \<and> s \<in> subject ` set (books db)
                   \<and> sublist (lower (strip query)) (lower s)
                   \<and> (\<forall>x \<in> subject ` set (books db).
                         sublist (lower (strip query)) (lower x) \<longrightarrow> x = s))"
  shows "get_recommendations iter1 env1 env2 db query found_books
           = get_recommendations iter2 env1 env2 db query found_books"
proof -
  let ?q = "lower (strip query)"
  have "determine_target iter1 env1 db ?q found_books
          = determine_target iter2 env1 db ?q found_books"
  proof (cases found_books)
    case (Cons b bs)
    then show ?thesis by (simp add: determine_target_def)
  next
    case Nil
    with h obtain s where s: "s \<noteq> []" "s \<in> subject ` set (books db)" "sublist ?q (lower s)"
      and u: "\<forall>x \<in> subject ` set (books db). sublist ?q (lower x) \<longrightarrow> x = s"
      by blast
    show ?thesis
    proof (cases "env1 Connect \<or> env1 Execute")
      case True
      have "determine_target iter1 env1 db ?q [] = determine_target iter2 env1 db ?q []"
        by (simp only: determine_target_no_rows [OF o1 True]
            determine_target_no_rows [OF o2 True])
      with Nil show ?thesis by simp
    next
      case False
      then have ok: "\<not> env1 Connect" "\<not> env1 Execute" by simp_all
      have "determine_target iter1 env1 db ?q [] = determine_target iter2 env1 db ?q []"
        by (simp only: determine_target_unique [OF o1 ok s u]
            determine_target_unique [OF o2 ok s u])
      with Nil show ?thesis by simp
    qed
  qed
  then show ?thesis by (simp only: get_recommendations_def Let_def)
qed

theorem recommendations_order_independent_witness:
  "set_order insertion_order \<and> set_order reverse_order
   \<and> (\<exists>s. s \<noteq> [] \<and> s \<in> subject ` set (books seed_db)
          \<and> sublist (lower (strip '' Math '')) (lower s)
          \<and> (\<forall>x \<in> subject ` set (books seed_db).
                sublist (lower (strip '' Math '')) (lower x) \<longrightarrow> x = s))
   \<and> get_recommendations insertion_order no_fault no_fault seed_db '' Math '' []
       = get_recommendations reverse_order no_fault no_fault seed_db '' Math '' []"
proof -
  have "''Mathematics'' \<noteq> [] \<and> ''Mathematics'' \<in> subject ` set (books seed_db)
          \<and> sublist (lower (strip '' Math '')) (lower ''Mathematics'')
          \<and> (\<forall>x \<in> subject ` set (books seed_db).
                sublist (lower (strip '' Math '')) (lower x) \<longrightarrow> x = ''Mathematics'')"
    by code_simp
  then have h: "\<exists>s. s \<noteq> [] \<and> s \<in> subject ` set (books seed_db)
          \<and> sublist (lower (strip '' Math '')) (lower s)
          \<and> (\<forall>x \<in> subject ` set (books seed_db).
                sublist (lower (strip '' Math '')) (lower x) \<longrightarrow> x = s)"
    by blast
  then have "[] \<noteq> ([] :: book list)
            \<or> (\<exists>s. s \<noteq> [] \<and> s \<in> subject ` set (books seed_db)
                   \<and> sublist (lower (strip '' Math '')) (lower s)
                   \<and> (\<forall>x \<in> subject ` set (books seed_db).
                         sublist (lower (strip '' Math '')) (lower x) \<longrightarrow> x = s))"
    by blast
  from recommendations_order_independent
         [OF set_order_insertion_order set_order_reverse_order this, of no_fault no_fault]
    set_order_insertion_order set_order_reverse_order h
  show ?thesis by blast
qed

text \<open>
  As the claim is stated it fails: with several subjects holding the query, the target
  is the first of them in the iteration order of the set, which Python does not fix. On
  the seed data the query \<open>e\<close> occurs in all three subjects; one order of the set makes
  Science the target and suggests book 5, another makes Computer Science the target and
  suggests books 1 and 3.
\<close>

theorem recommendations_order_counterexample:
  "set_order insertion_order \<and> set_order reverse_order
   \<and> fst (get_recommendations insertion_order no_fault no_fault seed_db ''e'' [])
       = Inr (related_message ''Science'', filter (\<lambda>b. book_id b = 5) (books seed_db))
   \<and> fst (get_recommendations reverse_order no_fault no_fault seed_db ''e'' [])
       = Inr (related_message ''Computer Science'',
              filter (\<lambda>b. book_id b = 1 \<or> book_id b = 3) (books seed_db))
   \<and> get_recommendations insertion_order no_fault no_fault seed_db ''e'' []
       \<noteq> get_recommendations reverse_order no_fault no_fault seed_db ''e'' []"
proof -
  have a: "fst (get_recommendations insertion_order no_fault no_fault seed_db ''e'' [])
       = Inr (related_message ''Science'', filter (\<lambda>b. book_id b = 5) (books seed_db))"
    by code_simp
  have b: "fst (get_recommendations reverse_order no_fault no_fault seed_db ''e'' [])
       = Inr (related_message ''Computer Science'',
              filter (\<lambda>b. book_id b = 1 \<or> book_id b = 3) (books seed_db))"
    by code_simp
  have c: "related_message ''Science'' \<noteq> related_message ''Computer Science''"
    by (simp add: related_message_def)
  from a b c have "get_recommendations insertion_order no_fault no_fault seed_db ''e'' []
       \<noteq> get_recommendations reverse_order no_fault no_fault seed_db ''e'' []"
    by auto
  with a b set_order_insertion_order set_order_reverse_order show ?thesis by blast
qed

end
